theory Spec2Isabelle
  imports Complex_Main "HOL-Library.Sublist" "HOL-Library.Log_Nat"
begin

section \<open>Hardware metrics collection: the field mappers of \<open>internal/metrics/cmd.go\<close>\<close>

text \<open>
  The mappers of \<open>cmd.go\<close> run an external command, hand its output to a line filter or
  to the JSON decoder, and assemble a typed record from what comes back. The helpers
  \<open>filterAll\<close>, \<open>filterFirst\<close>, \<open>parseJSON\<close> and \<open>convKBToGB\<close> and the struct
  declarations live in other files of the package. Each mapper is embedded as a function of
  the value its helper hands back (the pair \<open>results, err\<close> of \<open>filterAll\<close>, the pair
  \<open>result, err\<close> of \<open>parseJSON\<close>), so that every branch of the Go code is a branch here.
  Where a property depends on what a helper computes (\<open>filterFirst\<close> in \<open>getHwCap\<close>,
  \<open>convKBToGB\<close> in \<open>getPartitions\<close>, the values \<open>parseJSON\<close> returns to \<open>getCPU\<close>),
  the helper is modelled from the specification and marked as such.
  Go strings are byte strings, read as UTF-8 where the library decodes them; they are
  modelled as \<open>string\<close>, one \<open>char\<close> for each byte.
  A call of \<open>log.Infof\<close> appends one entry to a log that each mapper returns beside its
  result.
\<close>

subsection \<open>Errors, panics and log entries\<close>

text \<open>An \<open>error\<close> value of Go: the filter's not-found outcome, or any other failure with
  its message.\<close>

datatype error = NotFound | Failure string

text \<open>The one run-time panic the mappers can raise.\<close>

datatype panic = NilPointerDereference

text \<open>One constructor for each \<open>log.Infof\<close> call of \<open>cmd.go\<close>, with the arguments of
  the call.\<close>

datatype log_entry =
    CouldntGetGPU error
  | GPUInfoForm string
  | CouldntGetCPU error
  | CouldNotConvertLscpu
  | CouldntGetScreen error
  | ScreenInfoForm string
  | NoPhysicalSize
  | CouldntGetDisk error
  | PartitionSizeForm string
  | PartitionSizeInteger error
  | CouldntGetArchitecture error
  | CouldntGetHwcap error
  | NoSupportedHwcap error

subsection \<open>The Go library functions the mappers call\<close>

text \<open>\<open>strings.HasPrefix\<close>.\<close>

definition strings_HasPrefix :: "string \<Rightarrow> string \<Rightarrow> bool" where
  "strings_HasPrefix s p = (length p \<le> length s \<and> take (length p) s = p)"

text \<open>\<open>strings.Index\<close> and \<open>bytes.Index\<close>: the index of the first occurrence of
  \<open>sub\<close> in \<open>s\<close>, or \<open>-1\<close>.\<close>

fun strings_Index :: "string \<Rightarrow> string \<Rightarrow> int" where
  "strings_Index [] sub = (if sub = [] then 0 else - 1)"
| "strings_Index (c # cs) sub =
     (if strings_HasPrefix (c # cs) sub then 0
      else (let i = strings_Index cs sub in if i < 0 then - 1 else i + 1))"

definition bytes_Index :: "string \<Rightarrow> string \<Rightarrow> int" where
  "bytes_Index = strings_Index"

text \<open>The code points for which \<open>unicode.IsSpace\<close> holds, each as its UTF-8 encoding:
  U+0009 to U+000D, U+0020, U+0085, U+00A0, U+1680, U+2000 to U+200A, U+2028, U+2029,
  U+202F, U+205F and U+3000.\<close>

definition spaceRunes :: "string list" where
  "spaceRunes =
     [[CHR 0x09], [CHR 0x0A], [CHR 0x0B], [CHR 0x0C], [CHR 0x0D], [CHR 0x20],
      [CHR 0xC2, CHR 0x85], [CHR 0xC2, CHR 0xA0], [CHR 0xE1, CHR 0x9A, CHR 0x80],
      [CHR 0xE2, CHR 0x80, CHR 0x80], [CHR 0xE2, CHR 0x80, CHR 0x81],
      [CHR 0xE2, CHR 0x80, CHR 0x82], [CHR 0xE2, CHR 0x80, CHR 0x83],
      [CHR 0xE2, CHR 0x80, CHR 0x84], [CHR 0xE2, CHR 0x80, CHR 0x85],
      [CHR 0xE2, CHR 0x80, CHR 0x86], [CHR 0xE2, CHR 0x80, CHR 0x87],
      [CHR 0xE2, CHR 0x80, CHR 0x88], [CHR 0xE2, CHR 0x80, CHR 0x89],
      [CHR 0xE2, CHR 0x80, CHR 0x8A], [CHR 0xE2, CHR 0x80, CHR 0xA8],
      [CHR 0xE2, CHR 0x80, CHR 0xA9], [CHR 0xE2, CHR 0x80, CHR 0xAF],
      [CHR 0xE2, CHR 0x81, CHR 0x9F], [CHR 0xE3, CHR 0x80, CHR 0x80]]"

text \<open>The number of bytes of the white space code point that \<open>s\<close> starts with, and \<open>0\<close>
  when \<open>s\<close> starts with none. The first byte of each of these encodings is never a
  continuation byte of UTF-8, so the decoder of Go reads a white space code point exactly
  where one of the encodings occurs in the bytes.\<close>

definition spaceWidth :: "string \<Rightarrow> nat" where
  "spaceWidth s =
     (case filter (strings_HasPrefix s) spaceRunes of [] \<Rightarrow> 0 | rune # _ \<Rightarrow> length rune)"


text \<open>\<open>strings.Fields\<close>: the maximal runs of bytes between white space code points, in
  order. \<open>fieldsFrom cur skip s\<close> scans \<open>s\<close> with the field read so far in \<open>cur\<close>;
  \<open>skip\<close> counts the bytes still to pass of a white space code point that has begun.\<close>

fun fieldsFrom :: "string \<Rightarrow> nat \<Rightarrow> string \<Rightarrow> string list" where
  "fieldsFrom cur skip [] = (if cur = [] then [] else [cur])"
| "fieldsFrom cur skip (c # cs) =
     (if skip > 0 then fieldsFrom cur (skip - 1) cs
      else (let w = spaceWidth (c # cs)
            in if w > 0
               then (if cur = [] then fieldsFrom [] (w - 1) cs
                     else cur # fieldsFrom [] (w - 1) cs)
               else fieldsFrom (cur @ [c]) 0 cs))"

definition strings_Fields :: "string \<Rightarrow> string list" where
  "strings_Fields s = fieldsFrom [] 0 s"



text \<open>\<open>strings.SplitN(s, sep, n)\<close> for a separator that is not empty and \<open>n \<ge> 0\<close>: at
  most \<open>n\<close> pieces, the last one the unsplit rest.\<close>

fun strings_SplitN :: "string \<Rightarrow> string \<Rightarrow> nat \<Rightarrow> string list" where
  "strings_SplitN s sep 0 = []"
| "strings_SplitN s sep (Suc 0) = [s]"
| "strings_SplitN s sep (Suc (Suc n)) =
     (let m = strings_Index s sep
      in if m < 0 then [s]
         else take (nat m) s # strings_SplitN (drop (nat m + length sep) s) sep (Suc n))"

text \<open>\<open>strings.Replace(s, " ", "", -1)\<close>: every space of \<open>s\<close> removed.\<close>

definition strings_Replace_spaces :: "string \<Rightarrow> string" where
  "strings_Replace_spaces s = filter (\<lambda>c. c \<noteq> CHR '' '') s"

subsection \<open>The CPU mapper\<close>

text \<open>A tree entry of the \<open>lscpu\<close> JSON output: a field label, its data and the child
  entries.\<close>

datatype LscpuEntry = LscpuEntry (Field: string) (Data: string) (Children: "LscpuEntry list")

record cpuInfo =
  OpMode :: string
  CPUs :: string
  Threads :: string
  Cores :: string
  Sockets :: string
  Vendor :: string
  Family :: string
  Model :: string
  Stepping :: string
  Name :: string
  Virtualization :: string
  Hypervisor :: string
  VirtualizationType :: string

text \<open>The zero value \<open>cpuInfo{}\<close>.\<close>

definition cpuInfo_zero :: cpuInfo where
  "cpuInfo_zero = \<lparr>OpMode = [], CPUs = [], Threads = [], Cores = [], Sockets = [],
     Vendor = [], Family = [], Model = [], Stepping = [], Name = [], Virtualization = [],
     Hypervisor = [], VirtualizationType = []\<rparr>"

text \<open>The \<open>switch entry.Field\<close> of \<open>populateCpuInfo\<close>: the assignment made for one
  entry. A label that matches no case leaves the record as it is.\<close>

definition assignField :: "string \<Rightarrow> string \<Rightarrow> cpuInfo \<Rightarrow> cpuInfo" where
  "assignField field data c =
     (if field = ''CPU op-mode(s):'' then c\<lparr>OpMode := data\<rparr>
      else if field = ''CPU(s):'' then c\<lparr>CPUs := data\<rparr>
      else if field = ''Thread(s) per core:'' then c\<lparr>Threads := data\<rparr>
      else if field = ''Core(s) per socket:'' then c\<lparr>Cores := data\<rparr>
      else if field = ''Socket(s):'' then c\<lparr>Sockets := data\<rparr>
      else if field = ''Vendor ID:'' then c\<lparr>Vendor := data\<rparr>
      else if field = ''CPU family:'' then c\<lparr>Family := data\<rparr>
      else if field = ''Model:'' then c\<lparr>Model := data\<rparr>
      else if field = ''Stepping:'' then c\<lparr>Stepping := data\<rparr>
      else if field = ''Model name:'' then c\<lparr>Name := data\<rparr>
      else if field = ''Virtualization:'' then c\<lparr>Virtualization := data\<rparr>
      else if field = ''Hypervisor vendor:'' then c\<lparr>Hypervisor := data\<rparr>
      else if field = ''Virtualization type:'' then c\<lparr>VirtualizationType := data\<rparr>
      else c)"

text \<open>\<open>populateCpuInfo\<close>: the loop over the entries, with the record behind the pointer
  \<open>c\<close> passed along. \<open>populateEntry\<close> is the body of the loop for one entry.\<close>

fun populateCpuInfo :: "LscpuEntry list \<Rightarrow> cpuInfo \<Rightarrow> cpuInfo"
  and populateEntry :: "LscpuEntry \<Rightarrow> cpuInfo \<Rightarrow> cpuInfo" where
  "populateCpuInfo [] c = c"
| "populateCpuInfo (entry # entries) c = populateCpuInfo entries (populateEntry entry c)"
| "populateEntry (LscpuEntry field data children) c =
     (let c' = assignField field data c
      in if length children > 0 then populateCpuInfo children c' else c')"

text \<open>The struct \<open>Lscpu\<close> that \<open>getCPU\<close> hands to \<open>parseJSON\<close>.\<close>

record Lscpu =
  Lscpu :: "LscpuEntry list"

text \<open>A value of type \<open>interface{}\<close>, as the type assertion \<open>result.(*Lscpu)\<close> tells
  values apart: a pointer of type \<open>*Lscpu\<close>, which is nil (\<open>None\<close>) or points to a
  struct, or a value of any other dynamic type.\<close>

datatype iface = LscpuPointer "Lscpu option" | OtherType

text \<open>Modelled from the spec: \<open>parseJSON\<close> is declared in another file of the package.
  The spec gives the parser two outcomes: it decodes the bytes of the stream as JSON into
  the shape it is given and returns the tree, or it returns a decode error. The argument
  here is the outcome of decoding the output of the command into the struct behind the
  pointer \<open>&Lscpu{}\<close> that \<open>getCPU\<close> passes; on success the value returned is that
  pointer.\<close>

definition parseJSON :: "error + Lscpu \<Rightarrow> error + iface" where
  "parseJSON decoded =
     (case decoded of
        Inl err \<Rightarrow> Inl err
      | Inr tree \<Rightarrow> Inr (LscpuPointer (Some tree)))"

text \<open>\<open>getCPU\<close>, given what \<open>parseJSON(r, &Lscpu{})\<close> returns. When the type assertion
  \<open>result.(*Lscpu)\<close> fails, \<open>lscpu\<close> is the nil pointer and the code logs; in every case
  it goes on to \<open>lscpu.Lscpu\<close>, which panics on a nil pointer.\<close>

definition getCPU :: "error + iface \<Rightarrow> (panic + cpuInfo) \<times> log_entry list" where
  "getCPU parsedJSON =
     (case parsedJSON of
        Inl err \<Rightarrow> (Inr cpuInfo_zero, [CouldntGetCPU err])
      | Inr result \<Rightarrow>
          (case result of
             LscpuPointer lscpu \<Rightarrow>
               (case lscpu of
                  None \<Rightarrow> (Inl NilPointerDereference, [])
                | Some tree \<Rightarrow> (Inr (populateCpuInfo (Lscpu tree) cpuInfo_zero), []))
           | OtherType \<Rightarrow> (Inl NilPointerDereference, [CouldNotConvertLscpu])))"

text \<open>The depth-first order of a tree of entries: each entry, then its children, then
  the entries after it. One pair of label and data for each visit.\<close>

fun visitOrder :: "LscpuEntry list \<Rightarrow> (string \<times> string) list"
  and visitEntry :: "LscpuEntry \<Rightarrow> (string \<times> string) list" where
  "visitOrder [] = []"
| "visitOrder (entry # entries) = visitEntry entry @ visitOrder entries"
| "visitEntry (LscpuEntry field data children) = (field, data) # visitOrder children"

text \<open>The known labels, each with the field of the record it stands for.\<close>

definition cpuFields :: "(string \<times> (cpuInfo \<Rightarrow> string)) list" where
  "cpuFields =
     [(''CPU op-mode(s):'', OpMode), (''CPU(s):'', CPUs), (''Thread(s) per core:'', Threads),
      (''Core(s) per socket:'', Cores), (''Socket(s):'', Sockets), (''Vendor ID:'', Vendor),
      (''CPU family:'', Family), (''Model:'', Model), (''Stepping:'', Stepping),
      (''Model name:'', Name), (''Virtualization:'', Virtualization),
      (''Hypervisor vendor:'', Hypervisor), (''Virtualization type:'', VirtualizationType)]"

text \<open>The data of the visits that carry a given label, in visiting order.\<close>

definition writes :: "string \<Rightarrow> (string \<times> string) list \<Rightarrow> string list" where
  "writes label visits = map snd (filter (\<lambda>v. fst v = label) visits)"

text \<open>The assignments of a sequence of visits, made one after the other.\<close>

definition assignAll :: "(string \<times> string) list \<Rightarrow> cpuInfo \<Rightarrow> cpuInfo" where
  "assignAll visits c = foldl (\<lambda>c v. assignField (fst v) (snd v) c) c visits"

subsection \<open>The GPU mapper\<close>

record gpuInfo =
  Vendor :: string
  Model :: string

text \<open>The loop of \<open>getGPU\<close> over the strings \<open>filterAll\<close> returned, with the slice
  \<open>gpus\<close> and the log built so far.\<close>

fun getGPU_loop :: "string list \<Rightarrow> gpuInfo list \<Rightarrow> log_entry list
    \<Rightarrow> gpuInfo list \<times> log_entry list" where
  "getGPU_loop [] gpus lg = (gpus, lg)"
| "getGPU_loop (gpuinfo # results) gpus lg =
     (let i = strings_SplitN gpuinfo '':'' 2
      in if length i \<noteq> 2 then getGPU_loop results gpus (lg @ [GPUInfoForm gpuinfo])
         else getGPU_loop results (gpus @ [\<lparr>Vendor = i ! 0, Model = i ! 1\<rparr>]) lg)"

text \<open>\<open>getGPU\<close>, given what \<open>filterAll\<close> returns for the output of the PCI listing
  command.\<close>

definition getGPU :: "error + string list \<Rightarrow> gpuInfo list \<times> log_entry list" where
  "getGPU filtered =
     (case filtered of
        Inl err \<Rightarrow> ([], [CouldntGetGPU err])
      | Inr results \<Rightarrow> getGPU_loop results [] [])"

text \<open>What the specification says \<open>getGPU\<close> makes of one filtered string: a record
  split at the first colon, or a log entry when there is no colon.\<close>

definition gpuEntry :: "string \<Rightarrow> gpuInfo list \<times> log_entry list" where
  "gpuEntry gpuinfo =
     (if CHR '':'' \<in> set gpuinfo
      then ([\<lparr>Vendor = takeWhile (\<lambda>c. c \<noteq> CHR '':'') gpuinfo,
              Model = tl (dropWhile (\<lambda>c. c \<noteq> CHR '':'') gpuinfo)\<rparr>], [])
      else ([], [GPUInfoForm gpuinfo]))"

text \<open>The characters of the class \<open>[a-zA-Z0-9]\<close>.\<close>

definition isAlnum :: "char \<Rightarrow> bool" where
  "isAlnum c =
     (c \<in> set ''abcdefghijklmnopqrstuvwxyzABCDEFGHIJKLMNOPQRSTUVWXYZ0123456789'')"

text \<open>Modelled from the spec: \<open>filterAll\<close> is declared in another file of the package. By
  its contract it returns, for each matching line, the text matched by the capture group of
  the pattern. \<open>gpuCapture s\<close> holds when \<open>s\<close> is a text that the group
  \<open>([a-zA-Z0-9]+:[a-zA-Z0-9]+)\<close> of the pattern of \<open>getGPU\<close> can match: a non-empty
  alphanumeric run, a colon, a non-empty alphanumeric run.\<close>

definition gpuCapture :: "string \<Rightarrow> bool" where
  "gpuCapture s =
     (let vendor = takeWhile isAlnum s; rest = dropWhile isAlnum s
      in vendor \<noteq> [] \<and> rest \<noteq> [] \<and> hd rest = CHR '':'' \<and> tl rest \<noteq> []
         \<and> list_all isAlnum (tl rest))"

subsection \<open>The screen mapper\<close>

record screenInfo =
  Size :: string
  Resolution :: string
  Frequency :: string

text \<open>The loop of \<open>getScreens\<close>, with \<open>lastSize\<close>, the slice \<open>screens\<close> and the log.\<close>

fun getScreens_loop :: "string list \<Rightarrow> string \<Rightarrow> screenInfo list \<Rightarrow> log_entry list
    \<Rightarrow> screenInfo list \<times> log_entry list" where
  "getScreens_loop [] lastSize screens lg = (screens, lg)"
| "getScreens_loop (screeninfo # results) lastSize screens lg =
     (if strings_Index screeninfo ''mm'' > - 1
      then getScreens_loop results (strings_Replace_spaces screeninfo) screens lg
      else (let i = strings_Fields screeninfo
            in if length i < 2
               then getScreens_loop results lastSize screens (lg @ [ScreenInfoForm screeninfo])
               else if lastSize = []
               then getScreens_loop results lastSize screens (lg @ [NoPhysicalSize])
               else getScreens_loop results lastSize
                      (screens @ [\<lparr>Size = lastSize, Resolution = i ! 0,
                                   Frequency = i ! (length i - 1)\<rparr>]) lg))"

text \<open>\<open>getScreens\<close>, given what \<open>filterAll\<close> returns for the output of the display
  command.\<close>

definition getScreens :: "error + string list \<Rightarrow> screenInfo list \<times> log_entry list" where
  "getScreens filtered =
     (case filtered of
        Inl err \<Rightarrow> ([], [CouldntGetScreen err])
      | Inr results \<Rightarrow> getScreens_loop results [] [] [])"

text \<open>The screen mapper as the specification describes it: the accumulator is the most
  recent physical size, absent until a size line has been seen. A size line is one that contains
  \<open>mm\<close>; every other line is a mode line.\<close>

fun screenLines :: "string option \<Rightarrow> string list \<Rightarrow> screenInfo list \<times> log_entry list" where
  "screenLines recent [] = ([], [])"
| "screenLines recent (line # rest) =
     (if 0 \<le> strings_Index line ''mm''
      then screenLines (Some (strings_Replace_spaces line)) rest
      else if length (strings_Fields line) < 2
      then (fst (screenLines recent rest), ScreenInfoForm line # snd (screenLines recent rest))
      else (case recent of
              None \<Rightarrow> (fst (screenLines recent rest), NoPhysicalSize # snd (screenLines recent rest))
            | Some physical \<Rightarrow>
                (\<lparr>Size = physical, Resolution = hd (strings_Fields line),
                  Frequency = last (strings_Fields line)\<rparr> # fst (screenLines recent rest),
                 snd (screenLines recent rest))))"

subsection \<open>The partition mapper\<close>

text \<open>A decimal integer as \<open>strconv.Atoi\<close> reads it: an optional sign and at least one
  digit, and a value within the range of Go's \<open>int\<close>, taken here as 64 bits wide.\<close>

definition digitValue :: "char \<Rightarrow> int option" where
  "digitValue c =
     (if c \<in> set ''0123456789'' then Some (int (of_char c) - 48) else None)"

fun parseDigits :: "int \<Rightarrow> string \<Rightarrow> int option" where
  "parseDigits acc [] = Some acc"
| "parseDigits acc (c # cs) =
     (case digitValue c of None \<Rightarrow> None | Some d \<Rightarrow> parseDigits (10 * acc + d) cs)"

definition parseDecimal :: "string \<Rightarrow> int option" where
  "parseDecimal s =
     (case s of
        [] \<Rightarrow> None
      | c # cs \<Rightarrow>
          if c = CHR ''-'' then (if cs = [] then None else map_option uminus (parseDigits 0 cs))
          else if c = CHR ''+'' then (if cs = [] then None else parseDigits 0 cs)
          else parseDigits 0 s)"

definition parseInt :: "string \<Rightarrow> int option" where
  "parseInt s =
     (case parseDecimal s of
        None \<Rightarrow> None
      | Some v \<Rightarrow> if - (2 ^ 63) \<le> v \<and> v < 2 ^ 63 then Some v else None)"

text \<open>The conversion \<open>float64(v)\<close> of a 64-bit integer. A \<open>float64\<close> is represented by
  the real number it denotes. An integer below \<open>2^53\<close> in magnitude is converted exactly;
  a larger one is rounded to 53 significant bits, to the nearest and to even on a tie.\<close>

definition float64_of_int :: "int \<Rightarrow> real" where
  "float64_of_int v =
     (let a = \<bar>v\<bar>
      in if a < 2 ^ 53 then real_of_int v
         else (let e = nat (bitlen a) - 53;
                   q = a div 2 ^ e;
                   r = a mod 2 ^ e;
                   q' = (if 2 ^ e < 2 * r \<or> (2 * r = 2 ^ e \<and> odd q) then q + 1 else q)
               in real_of_int (sgn v * (q' * 2 ^ e))))"

text \<open>Modelled from the spec: \<open>convKBToGB\<close> is declared in another file of the package.
  The spec gives it as: parse the size token as an integer, divide by 1,048,576, the result
  a floating-point number; a token that is not an integer is an error. The division of a
  \<open>float64\<close> of this size by \<open>2^20\<close> is exact.\<close>

definition convKBToGB :: "string \<Rightarrow> error + real" where
  "convKBToGB s =
     (case parseInt s of
        None \<Rightarrow> Inl (Failure s)
      | Some v \<Rightarrow> Inr (float64_of_int v / 1048576))"

text \<open>The loop of \<open>getPartitions\<close>, with the slice \<open>sizes\<close> and the log. The loop
  variable \<open>size\<close> of the source is written \<open>size'\<close>.\<close>

fun getPartitions_loop :: "string list \<Rightarrow> real list \<Rightarrow> log_entry list
    \<Rightarrow> real list \<times> log_entry list" where
  "getPartitions_loop [] sizes lg = (sizes, lg)"
| "getPartitions_loop (size' # results) sizes lg =
     (if strings_HasPrefix size' ''loop'' then getPartitions_loop results sizes lg
      else (let s = strings_Fields size'
            in if length s \<noteq> 2
               then getPartitions_loop results sizes (lg @ [PartitionSizeForm size'])
               else (case convKBToGB (s ! 1) of
                       Inl err \<Rightarrow>
                         getPartitions_loop results sizes (lg @ [PartitionSizeInteger err])
                     | Inr v \<Rightarrow> getPartitions_loop results (sizes @ [v]) lg)))"

text \<open>\<open>getPartitions\<close>, given what \<open>filterAll\<close> returns for the output of the disk usage
  command.\<close>

definition getPartitions :: "error + string list \<Rightarrow> real list \<times> log_entry list" where
  "getPartitions filtered =
     (case filtered of
        Inl err \<Rightarrow> ([], [CouldntGetDisk err])
      | Inr results \<Rightarrow> getPartitions_loop results [] [])"

text \<open>What the specification says \<open>getPartitions\<close> makes of one filtered entry:
  nothing for a loop device, a log entry for an entry without exactly two fields or with a
  size that is not an integer, and otherwise the kilobyte count, as a \<open>float64\<close>, divided
  by 1,048,576.\<close>

definition partitionEntry :: "string \<Rightarrow> real list \<times> log_entry list" where
  "partitionEntry entry =
     (if strings_HasPrefix entry ''loop'' then ([], [])
      else (case strings_Fields entry of
              [device, kilobytes] \<Rightarrow>
                (case parseInt kilobytes of
                   None \<Rightarrow> ([], [PartitionSizeInteger (Failure kilobytes)])
                 | Some kb \<Rightarrow> ([float64_of_int kb / 1048576], []))
            | _ \<Rightarrow> ([], [PartitionSizeForm entry])))"

subsection \<open>The architecture mapper\<close>


subsection \<open>The hardware capability mapper\<close>

text \<open>Modelled from the spec: \<open>filterFirst\<close> is declared in another file of the package.
  The spec gives it as: read the stream line by line (newline-delimited) and return the
  capture group of the first line that the pattern matches; when \<open>anchorToStart\<close> is set
  only a match that starts at column 0 counts; when the stream ends with no match the
  outcome is not-found. A pattern is represented by what it does on one line: where its
  match starts and the text of its capture group, or \<open>None\<close> when the line does not
  match.\<close>

type_synonym pattern = "string \<Rightarrow> (nat \<times> string) option"

fun scanLines :: "string \<Rightarrow> string \<Rightarrow> string list" where
  "scanLines cur [] = (if cur = [] then [] else [cur])"
| "scanLines cur (c # cs) =
     (if c = CHR 0x0A then cur # scanLines [] cs else scanLines (cur @ [c]) cs)"

definition linesOf :: "string \<Rightarrow> string list" where
  "linesOf r = scanLines [] r"

definition lineMatch :: "pattern \<Rightarrow> bool \<Rightarrow> string \<Rightarrow> string option" where
  "lineMatch pat anchorToStart line =
     (case pat line of
        None \<Rightarrow> None
      | Some (start, captured) \<Rightarrow>
          if anchorToStart \<and> start \<noteq> 0 then None else Some captured)"

definition filterFirst :: "string \<Rightarrow> pattern \<Rightarrow> bool \<Rightarrow> error + string" where
  "filterFirst r pat anchorToStart =
     (case List.map_filter (lineMatch pat anchorToStart) (linesOf r) of
        [] \<Rightarrow> Inl NotFound
      | m # _ \<Rightarrow> Inr m)"

text \<open>The pattern \<open>^(?:(.*) +.*supported, searched.*)\<close> of \<open>getHwCap\<close> on one line. The
  line matches when a space is followed, at once or later, by the text
  \<open>supported, searched\<close>; the group \<open>(.*)\<close> is greedy, so it captures the line up to the
  last such space. The match starts at column 0.\<close>

definition hwCapPattern :: pattern where
  "hwCapPattern line =
     (case filter (\<lambda>i. line ! i = CHR '' ''
                      \<and> 0 \<le> strings_Index (drop (Suc i) line) ''supported, searched'')
             (rev [0..<length line]) of
        [] \<Rightarrow> None
      | i # _ \<Rightarrow> Some (0, take i line))"

definition hwCapBytes :: string where
  "hwCapBytes = ''Subdirectories of glibc-hwcaps''"

definition legacyBytes :: string where
  "legacyBytes = ''Legacy HWCAP subdirectories''"

text \<open>The buffer that \<open>getHwCap\<close> hands to \<open>filterFirst\<close>: the output with the legacy
  section removed.\<close>

definition newSupported :: "string \<Rightarrow> string" where
  "newSupported bytesSupported =
     (let legacyIndex = bytes_Index bytesSupported legacyBytes
      in if legacyIndex \<ge> 0 then take (nat legacyIndex) bytesSupported else bytesSupported)"

text \<open>\<open>getHwCap\<close>. The argument is \<open>None\<close> when \<open>m.hwCapCmd\<close> is nil, and otherwise what
  \<open>ioutil.ReadAll\<close> returns for the output of the command.\<close>

definition getHwCap :: "(error + string) option \<Rightarrow> string \<times> log_entry list" where
  "getHwCap hwCapCmd =
     (case hwCapCmd of
        None \<Rightarrow> ([], [])
      | Some readAll \<Rightarrow>
          (case readAll of
             Inl err \<Rightarrow> ([], [CouldntGetHwcap err])
           | Inr bytesSupported \<Rightarrow>
               (let hwCapIndex = bytes_Index bytesSupported hwCapBytes
                in if hwCapIndex < 0 then ([], [])
                   else (case filterFirst (newSupported bytesSupported) hwCapPattern False of
                           Inl err \<Rightarrow> (''-'', [NoSupportedHwcap err])
                         | Inr resultSupported \<Rightarrow> (resultSupported, [])))))"

section \<open>The CPU field walk\<close>

lemma populate_visit:
  "populateCpuInfo entries c = assignAll (visitOrder entries) c"
  "populateEntry entry c = assignAll (visitEntry entry) c"
  by (induction entries c and entry c rule: populateCpuInfo_populateEntry.induct)
     (auto simp: assignAll_def Let_def)

lemma assignField_unknown:
  assumes "label \<notin> fst ` set cpuFields"
  shows "assignField label d c = c"
proof -
  from assms have "label \<noteq> ''CPU op-mode(s):''" "label \<noteq> ''CPU(s):''"
    "label \<noteq> ''Thread(s) per core:''" "label \<noteq> ''Core(s) per socket:''"
    "label \<noteq> ''Socket(s):''" "label \<noteq> ''Vendor ID:''" "label \<noteq> ''CPU family:''"
    "label \<noteq> ''Model:''" "label \<noteq> ''Stepping:''" "label \<noteq> ''Model name:''"
    "label \<noteq> ''Virtualization:''" "label \<noteq> ''Hypervisor vendor:''"
    "label \<noteq> ''Virtualization type:''"
    unfolding cpuFields_def by auto
  then show ?thesis unfolding assignField_def by simp
qed

lemma assignField_sel:
  "OpMode (assignField f d c) = (if f = ''CPU op-mode(s):'' then d else OpMode c)"
  "CPUs (assignField f d c) = (if f = ''CPU(s):'' then d else CPUs c)"
  "Threads (assignField f d c) = (if f = ''Thread(s) per core:'' then d else Threads c)"
  "Cores (assignField f d c) = (if f = ''Core(s) per socket:'' then d else Cores c)"
  "Sockets (assignField f d c) = (if f = ''Socket(s):'' then d else Sockets c)"
  "cpuInfo.Vendor (assignField f d c) = (if f = ''Vendor ID:'' then d else cpuInfo.Vendor c)"
  "Family (assignField f d c) = (if f = ''CPU family:'' then d else Family c)"
  "cpuInfo.Model (assignField f d c) = (if f = ''Model:'' then d else cpuInfo.Model c)"
  "Stepping (assignField f d c) = (if f = ''Stepping:'' then d else Stepping c)"
  "Name (assignField f d c) = (if f = ''Model name:'' then d else Name c)"
  "Virtualization (assignField f d c) = (if f = ''Virtualization:'' then d else Virtualization c)"
  "Hypervisor (assignField f d c) = (if f = ''Hypervisor vendor:'' then d else Hypervisor c)"
  "VirtualizationType (assignField f d c) =
     (if f = ''Virtualization type:'' then d else VirtualizationType c)"
  unfolding assignField_def by simp_all

lemma assignField_known:
  assumes "(label, sel) \<in> set cpuFields"
  shows "sel (assignField f d c) = (if f = label then d else sel c)"
  using assms unfolding cpuFields_def by (auto simp: assignField_sel)

lemma assignAll_last:
  assumes "(label, sel) \<in> set cpuFields"
  shows "sel (assignAll visits c) =
    (if writes label visits = [] then sel c else last (writes label visits))"
  by (induction visits arbitrary: c rule: rev_induct)
     (auto simp: assignAll_def writes_def assignField_known [OF assms])

text \<open>
  Claim C3. For every input tree the walk of \<open>populateCpuInfo\<close> makes the assignments of
  the entries in depth-first order: an entry first, then its children at every depth, then
  the entries after it. A label that is not known changes nothing. For a known label the
  field of the result holds the data of the last visit that carries the label, and the
  value it had before when no visit carries it.
\<close>

theorem populateCpuInfo_depth_first_last_write:
  "populateCpuInfo entries c = assignAll (visitOrder entries) c
   \<and> (unknown \<notin> fst ` set cpuFields \<longrightarrow> assignField unknown d c = c)
   \<and> ((label, sel) \<in> set cpuFields \<longrightarrow>
        sel (populateCpuInfo entries c) =
          (if writes label (visitOrder entries) = [] then sel c
           else last (writes label (visitOrder entries))))"
  by (simp add: populate_visit assignField_unknown assignAll_last)

theorem populateCpuInfo_depth_first_last_write_witness:
  "populateCpuInfo
     [LscpuEntry ''Model name:'' ''A''
        [LscpuEntry ''Model name:'' ''B'' [],
         LscpuEntry ''bogus'' ''x'' [LscpuEntry ''CPU(s):'' ''4'' []]],
      LscpuEntry ''CPU(s):'' ''8'' []] cpuInfo_zero
   = assignAll [(''Model name:'', ''A''), (''Model name:'', ''B''), (''bogus'', ''x''),
        (''CPU(s):'', ''4''), (''CPU(s):'', ''8'')] cpuInfo_zero
   \<and> ''bogus'' \<notin> fst ` set cpuFields
   \<and> assignField ''bogus'' ''x'' cpuInfo_zero = cpuInfo_zero
   \<and> (''CPU(s):'', CPUs) \<in> set cpuFields
   \<and> CPUs (populateCpuInfo
        [LscpuEntry ''Model name:'' ''A''
           [LscpuEntry ''Model name:'' ''B'' [],
            LscpuEntry ''bogus'' ''x'' [LscpuEntry ''CPU(s):'' ''4'' []]],
         LscpuEntry ''CPU(s):'' ''8'' []] cpuInfo_zero) = ''8''"
proof -
  have u: "''bogus'' \<notin> fst ` set cpuFields"
    by (simp add: cpuFields_def)
  have k: "(''CPU(s):'', CPUs) \<in> set cpuFields"
    by (simp add: cpuFields_def)
  show ?thesis
    using u k
      populateCpuInfo_depth_first_last_write [of
        "[LscpuEntry ''Model name:'' ''A''
           [LscpuEntry ''Model name:'' ''B'' [],
            LscpuEntry ''bogus'' ''x'' [LscpuEntry ''CPU(s):'' ''4'' []]],
          LscpuEntry ''CPU(s):'' ''8'' []]" cpuInfo_zero "''bogus''" "''x''" "''CPU(s):''" CPUs]
    by (simp add: writes_def assignAll_def)
qed

section \<open>The GPU mapper splits at the first colon\<close>

lemma strings_HasPrefix_single [simp]: "strings_HasPrefix (x # xs) [c] = (x = c)"
  by (simp add: strings_HasPrefix_def)

lemma strings_Index_char:
  "strings_Index s [c] =
     (if c \<in> set s then int (length (takeWhile (\<lambda>x. x \<noteq> c) s)) else - 1)"
  by (induction s) (auto simp: Let_def)

lemma strings_SplitN_char_2:
  "strings_SplitN s [c] 2 =
     (if c \<in> set s then [takeWhile (\<lambda>x. x \<noteq> c) s, tl (dropWhile (\<lambda>x. x \<noteq> c) s)]
      else [s])"
proof (cases "c \<in> set s")
  case True
  let ?n = "length (takeWhile (\<lambda>x. x \<noteq> c) s)"
  have t: "take ?n s = takeWhile (\<lambda>x. x \<noteq> c) s"
    by (rule takeWhile_eq_take [symmetric])
  have d: "drop (Suc ?n) s = tl (dropWhile (\<lambda>x. x \<noteq> c) s)"
    by (simp add: dropWhile_eq_drop drop_Suc tl_drop)
  show ?thesis
    using True t d by (simp add: numeral_2_eq_2 strings_Index_char Let_def)
next
  case False
  then show ?thesis
    by (simp add: numeral_2_eq_2 strings_Index_char Let_def)
qed

lemma getGPU_loop_entries:
  "getGPU_loop results gpus lg =
     (gpus @ concat (map (fst \<circ> gpuEntry) results),
      lg @ concat (map (snd \<circ> gpuEntry) results))"
  by (induction results arbitrary: gpus lg)
     (simp_all add: strings_SplitN_char_2 gpuEntry_def Let_def)

text \<open>
  Claim C6. For every list of filtered strings \<open>getGPU\<close> treats each string on its own
  and keeps the order: a string with a colon is split at its first colon into exactly two
  parts and gives the record whose vendor is the text before that colon and whose model is
  the text after it; a string that does not split into two parts, which is a string with no
  colon, is dropped and logged and gives no record. The captured string \<open>10de:1234\<close> of
  the line \<open>01:00.0 0300: 10de:1234 (rev a1)\<close> gives the vendor \<open>10de\<close> and the model
  \<open>1234\<close>; the malformed text \<open>noColon\<close> of \<open>0300: noColon\<close> is dropped and logged.
\<close>

theorem getGPU_splits_at_first_colon:
  "getGPU (Inr results) =
     (concat (map (fst \<circ> gpuEntry) results), concat (map (snd \<circ> gpuEntry) results))
   \<and> getGPU (Inr [''10de:1234'']) = ([\<lparr>Vendor = ''10de'', Model = ''1234''\<rparr>], [])
   \<and> getGPU (Inr [''noColon'']) = ([], [GPUInfoForm ''noColon''])
   \<and> getGPU (Inr [''10de:1234'', ''noColon'', ''8086:0416'']) =
       ([\<lparr>Vendor = ''10de'', Model = ''1234''\<rparr>, \<lparr>Vendor = ''8086'', Model = ''0416''\<rparr>],
        [GPUInfoForm ''noColon''])"
  by (simp add: getGPU_def getGPU_loop_entries gpuEntry_def)

section \<open>The captured strings of the PCI pattern always split\<close>

lemma isAlnum_colon [simp]: "\<not> isAlnum CHR '':''"
  by (simp add: isAlnum_def)

lemma gpuCapture_language:
  "gpuCapture s \<longleftrightarrow>
     (\<exists>vendor model. s = vendor @ '':'' @ model \<and> vendor \<noteq> [] \<and> model \<noteq> []
        \<and> list_all isAlnum vendor \<and> list_all isAlnum model)"
proof
  assume g: "gpuCapture s"
  let ?v = "takeWhile isAlnum s" and ?r = "dropWhile isAlnum s"
  from g have r: "?r = CHR '':'' # tl ?r"
    by (cases ?r) (simp_all add: gpuCapture_def Let_def)
  have "s = ?v @ ?r" by simp
  with r have "s = ?v @ '':'' @ tl ?r" by simp
  moreover have "list_all isAlnum ?v"
    by (auto simp: list_all_iff dest: set_takeWhileD)
  moreover from g have "?v \<noteq> []" "tl ?r \<noteq> []" "list_all isAlnum (tl ?r)"
    by (simp_all add: gpuCapture_def Let_def)
  ultimately show "\<exists>vendor model. s = vendor @ '':'' @ model \<and> vendor \<noteq> [] \<and> model \<noteq> []
        \<and> list_all isAlnum vendor \<and> list_all isAlnum model"
    by blast
next
  assume "\<exists>vendor model. s = vendor @ '':'' @ model \<and> vendor \<noteq> [] \<and> model \<noteq> []
        \<and> list_all isAlnum vendor \<and> list_all isAlnum model"
  then obtain vendor model where s: "s = vendor @ CHR '':'' # model" and ne: "vendor \<noteq> []" "model \<noteq> []"
    and al: "list_all isAlnum vendor" "list_all isAlnum model"
    by auto
  from al(1) have "takeWhile isAlnum s = vendor" "dropWhile isAlnum s = CHR '':'' # model"
    unfolding s by (simp_all add: list_all_iff)
  with ne al show "gpuCapture s"
    by (simp add: gpuCapture_def)
qed

lemma gpuCapture_colon: "gpuCapture s \<Longrightarrow> CHR '':'' \<in> set s"
proof -
  assume "gpuCapture s"
  then have "dropWhile isAlnum s \<noteq> []" "hd (dropWhile isAlnum s) = CHR '':''"
    by (simp_all add: gpuCapture_def Let_def)
  then have "CHR '':'' \<in> set (dropWhile isAlnum s)"
    by (metis list.set_sel(1))
  then show ?thesis
    by (rule set_dropWhileD)
qed

lemma gpuEntry_capture:
  "gpuCapture s \<Longrightarrow>
   gpuEntry s = ([\<lparr>Vendor = takeWhile (\<lambda>c. c \<noteq> CHR '':'') s,
                   Model = tl (dropWhile (\<lambda>c. c \<noteq> CHR '':'') s)\<rparr>], [])"
  by (simp add: gpuEntry_def gpuCapture_colon)

text \<open>
  Claim C9. When every string that \<open>filterAll\<close> returns is a text of the capture group
  \<open>([a-zA-Z0-9]+:[a-zA-Z0-9]+)\<close>, the branch of \<open>getGPU\<close> that drops and logs is never
  taken: nothing is logged, and every filtered string gives one record, in order, split at
  its colon.
\<close>

theorem getGPU_capture_always_splits:
  assumes "list_all gpuCapture results"
  shows "getGPU (Inr results) =
     (map (\<lambda>s. \<lparr>Vendor = takeWhile (\<lambda>c. c \<noteq> CHR '':'') s,
                Model = tl (dropWhile (\<lambda>c. c \<noteq> CHR '':'') s)\<rparr>) results, [])"
proof -
  have "concat (map (fst \<circ> gpuEntry) results) =
      map (\<lambda>s. \<lparr>Vendor = takeWhile (\<lambda>c. c \<noteq> CHR '':'') s,
                Model = tl (dropWhile (\<lambda>c. c \<noteq> CHR '':'') s)\<rparr>) results
    \<and> concat (map (snd \<circ> gpuEntry) results) = []"
    using assms by (induction results) (simp_all add: gpuEntry_capture)
  then show ?thesis
    by (simp add: getGPU_def getGPU_loop_entries)
qed

theorem getGPU_capture_always_splits_witness:
  "list_all gpuCapture [''10de:1234'', ''8086:0416'']
   \<and> getGPU (Inr [''10de:1234'', ''8086:0416'']) =
       ([\<lparr>Vendor = ''10de'', Model = ''1234''\<rparr>, \<lparr>Vendor = ''8086'', Model = ''0416''\<rparr>], [])"
proof -
  have h: "list_all gpuCapture [''10de:1234'', ''8086:0416'']"
    by (simp add: gpuCapture_def isAlnum_def)
  show ?thesis
    using h getGPU_capture_always_splits [OF h] by simp
qed

section \<open>The screen mapper and its most recent physical size\<close>

lemma strings_Index_occurs:
  "0 \<le> strings_Index s sub \<Longrightarrow> \<exists>pre post. s = pre @ sub @ post"
proof (induction s)
  case Nil
  then show ?case by (simp split: if_splits)
next
  case (Cons c cs)
  show ?case
  proof (cases "strings_HasPrefix (c # cs) sub")
    case True
    then have "c # cs = [] @ sub @ drop (length sub) (c # cs)"
      by (metis append_Nil append_take_drop_id strings_HasPrefix_def)
    then show ?thesis by blast
  next
    case False
    with Cons.prems have "0 \<le> strings_Index cs sub"
      by (simp add: Let_def split: if_splits)
    then obtain pre post where "cs = pre @ sub @ post"
      using Cons.IH by blast
    then have "c # cs = (c # pre) @ sub @ post" by simp
    then show ?thesis by blast
  qed
qed

lemma size_line_not_empty:
  assumes "0 \<le> strings_Index line ''mm''"
  shows "strings_Replace_spaces line \<noteq> []"
proof -
  from strings_Index_occurs [OF assms] obtain pre post where "line = pre @ ''mm'' @ post"
    by blast
  then show ?thesis
    by (simp add: strings_Replace_spaces_def)
qed

lemma getScreens_loop_screenLines:
  assumes "lastSize = (case recent of None \<Rightarrow> [] | Some physical \<Rightarrow> physical)"
    and "recent \<noteq> Some []"
  shows "getScreens_loop results lastSize screens lg =
     (screens @ fst (screenLines recent results), lg @ snd (screenLines recent results))"
  using assms
proof (induction results arbitrary: lastSize recent screens lg)
  case Nil
  then show ?case by simp
next
  case (Cons line rest)
  show ?case
  proof (cases "0 \<le> strings_Index line ''mm''")
    case True
    have "getScreens_loop rest (strings_Replace_spaces line) screens lg =
        (screens @ fst (screenLines (Some (strings_Replace_spaces line)) rest),
         lg @ snd (screenLines (Some (strings_Replace_spaces line)) rest))"
      by (rule Cons.IH) (simp_all add: size_line_not_empty [OF True])
    with True show ?thesis by simp
  next
    case False
    note IH = Cons.IH [OF Cons.prems]
    show ?thesis
    proof (cases "length (strings_Fields line) < 2")
      case True
      with False show ?thesis by (simp add: IH)
    next
      case long: False
      then have ends: "strings_Fields line ! 0 = hd (strings_Fields line)"
        "strings_Fields line ! (length (strings_Fields line) - 1) = last (strings_Fields line)"
        by (cases "strings_Fields line"; simp add: last_conv_nth)+
      show ?thesis
      proof (cases recent)
        case None
        with False long Cons.prems IH show ?thesis by simp
      next
        case (Some physical)
        with Cons.prems have "lastSize = physical" "physical \<noteq> []" by simp_all
        with False long Some ends IH show ?thesis by (simp add: Let_def)
      qed
    qed
  qed
qed

text \<open>
  Claim C5. For every sequence of filtered display lines \<open>getScreens\<close> computes what the
  accumulator description computes: a line that contains \<open>mm\<close> replaces the most recent
  physical size by its text without spaces; a later mode line with at least two fields
  gives a record with that size, its first field as the resolution and its last field as
  the frequency; a mode line with fewer than two fields, or one seen before any size line,
  is skipped and logged. The size line \<open>1920mm x 1080mm\<close> followed by the mode line
  \<open>1920x1080 60.00*\<close> gives the size \<open>1920mmx1080mm\<close>. The fields of a mode line are
  separated by white space of any kind, such as the no-break space U+00A0.
\<close>

theorem getScreens_threads_recent_size:
  "getScreens (Inr results) = screenLines None results
   \<and> getScreens (Inr [''1920x1080 60.00*'', ''1920mm x 1080mm'', ''1920x1080 60.00*'', ''*'']) =
       ([\<lparr>Size = ''1920mmx1080mm'', Resolution = ''1920x1080'', Frequency = ''60.00*''\<rparr>],
        [NoPhysicalSize, ScreenInfoForm ''*''])
   \<and> getScreens (Inr [''1mm'', ''1920x1080'' @ [CHR 0xC2, CHR 0xA0] @ ''60.00'']) =
       ([\<lparr>Size = ''1mm'', Resolution = ''1920x1080'', Frequency = ''60.00''\<rparr>], [])"
proof -
  have general: "getScreens (Inr rs) = screenLines None rs" for rs
    by (simp add: getScreens_def getScreens_loop_screenLines [of "[]" None])
  have first: "screenLines None
      [''1920x1080 60.00*'', ''1920mm x 1080mm'', ''1920x1080 60.00*'', ''*''] =
       ([\<lparr>Size = ''1920mmx1080mm'', Resolution = ''1920x1080'', Frequency = ''60.00*''\<rparr>],
        [NoPhysicalSize, ScreenInfoForm ''*''])"
    by code_simp
  have second: "screenLines None [''1mm'', ''1920x1080'' @ [CHR 0xC2, CHR 0xA0] @ ''60.00''] =
       ([\<lparr>Size = ''1mm'', Resolution = ''1920x1080'', Frequency = ''60.00''\<rparr>], [])"
    by code_simp
  show ?thesis
    unfolding general using first second by blast
qed

section \<open>No returned screen has an empty size\<close>

lemma getScreens_loop_sizes:
  "\<forall>s \<in> set screens. Size s \<noteq> [] \<Longrightarrow>
   \<forall>s \<in> set (fst (getScreens_loop results lastSize screens lg)). Size s \<noteq> []"
  by (induction results lastSize screens lg rule: getScreens_loop.induct)
     (simp_all add: Let_def)

text \<open>
  Claim C10. Every record in the list that \<open>getScreens\<close> returns has a non-empty
  \<open>Size\<close>, whatever \<open>filterAll\<close> returned.
\<close>

theorem getScreens_size_not_empty:
  "\<forall>s \<in> set (fst (getScreens filtered)). Size s \<noteq> []"
proof (cases filtered)
  case (Inl err)
  then show ?thesis by (simp add: getScreens_def)
next
  case (Inr results)
  have "\<forall>s \<in> set (fst (getScreens_loop results [] [] [])). Size s \<noteq> []"
    by (rule getScreens_loop_sizes) simp
  with Inr show ?thesis by (simp add: getScreens_def)
qed

theorem getScreens_size_not_empty_witness:
  "fst (getScreens (Inr [''1920mm x 1080mm'', ''1920x1080 60.00*''])) =
     [\<lparr>Size = ''1920mmx1080mm'', Resolution = ''1920x1080'', Frequency = ''60.00*''\<rparr>]
   \<and> Size \<lparr>Size = ''1920mmx1080mm'', Resolution = ''1920x1080'', Frequency = ''60.00*''\<rparr> \<noteq> []"
proof -
  have e: "fst (getScreens (Inr [''1920mm x 1080mm'', ''1920x1080 60.00*''])) =
     [\<lparr>Size = ''1920mmx1080mm'', Resolution = ''1920x1080'', Frequency = ''60.00*''\<rparr>]"
    by code_simp
  show ?thesis
    using e getScreens_size_not_empty [of "Inr [''1920mm x 1080mm'', ''1920x1080 60.00*'']"]
    by simp
qed

section \<open>The partition mapper\<close>

lemma getPartitions_step:
  "getPartitions_loop (entry # results) sizes lg =
     getPartitions_loop results (sizes @ fst (partitionEntry entry))
       (lg @ snd (partitionEntry entry))"
proof (cases "strings_HasPrefix entry ''loop''")
  case True
  then show ?thesis by (simp add: partitionEntry_def)
next
  case False
  show ?thesis
  proof (cases "length (strings_Fields entry) = 2")
    case True
    then obtain device kilobytes where f: "strings_Fields entry = [device, kilobytes]"
      by (auto simp: length_Suc_conv numeral_2_eq_2)
    with False show ?thesis
      by (simp add: partitionEntry_def convKBToGB_def split: option.splits)
  next
    case wrong: False
    then have "(case strings_Fields entry of
          [device, kilobytes] \<Rightarrow>
            (case parseInt kilobytes of
               None \<Rightarrow> ([], [PartitionSizeInteger (Failure kilobytes)])
             | Some kb \<Rightarrow> ([float64_of_int kb / 1048576], []))
        | _ \<Rightarrow> ([], [PartitionSizeForm entry])) = ([], [PartitionSizeForm entry])"
      by (auto split: list.splits)
    with False wrong show ?thesis
      by (simp add: partitionEntry_def)
  qed
qed

lemma getPartitions_loop_entries:
  "getPartitions_loop results sizes lg =
     (sizes @ concat (map (fst \<circ> partitionEntry) results),
      lg @ concat (map (snd \<circ> partitionEntry) results))"
proof (induction results arbitrary: sizes lg)
  case Nil
  then show ?case by simp
next
  case (Cons entry results)
  show ?case
    unfolding getPartitions_step by (simp add: Cons.IH)
qed

lemma float64_of_int_exact: "\<bar>kb\<bar> < 2 ^ 53 \<Longrightarrow> float64_of_int kb = real_of_int kb"
  by (simp add: float64_of_int_def)

text \<open>
  Claim C4. For every list of filtered disk-usage entries \<open>getPartitions\<close> treats each
  entry on its own and keeps the order. An entry that starts with \<open>loop\<close> gives nothing.
  Any other entry that does not have exactly two fields separated by white space, or whose
  second field is not an integer of the machine, is dropped with one log entry. Every other
  entry gives its kilobyte count divided by 1,048,576 in \<open>float64\<close> arithmetic, which is
  the exact quotient for every count below \<open>2^53\<close>. The entry \<open>sda1        1048576\<close> of
  the line \<open>/dev/sda1        1048576  ...\<close> gives 1, the entry \<open>loop0   512\<close> gives
  nothing, and the entry \<open>sdb1  notanumber\<close> is dropped and logged.
\<close>

theorem getPartitions_sizes_in_gigabytes:
  "getPartitions (Inr results) =
     (concat (map (fst \<circ> partitionEntry) results), concat (map (snd \<circ> partitionEntry) results))
   \<and> (\<bar>kb\<bar> < 2 ^ 53 \<longrightarrow> float64_of_int kb / 1048576 = real_of_int kb / 1048576)
   \<and> getPartitions (Inr [''sda1        1048576'']) = ([1], [])
   \<and> getPartitions (Inr [''loop0   512'']) = ([], [])
   \<and> getPartitions (Inr [''sdb1  notanumber'']) =
       ([], [PartitionSizeInteger (Failure ''notanumber'')])
   \<and> getPartitions (Inr [''sda1'' @ [CHR 0xC2, CHR 0xA0] @ ''x 1048576'']) =
       ([], [PartitionSizeForm (''sda1'' @ [CHR 0xC2, CHR 0xA0] @ ''x 1048576'')])
   \<and> getPartitions (Inr [''sdc1 99999999999999999999'']) =
       ([], [PartitionSizeInteger (Failure ''99999999999999999999'')])"
proof -
  have general: "getPartitions (Inr rs) =
     (concat (map (fst \<circ> partitionEntry) rs), concat (map (snd \<circ> partitionEntry) rs))" for rs
    by (simp add: getPartitions_def getPartitions_loop_entries)
  have exact: "\<bar>kb\<bar> < 2 ^ 53 \<longrightarrow> float64_of_int kb / 1048576 = real_of_int kb / 1048576"
    by (simp add: float64_of_int_exact)
  have e1: "getPartitions (Inr [''sda1        1048576'']) = ([1], [])"
    by code_simp
  have e2: "getPartitions (Inr [''loop0   512'']) = ([], [])"
    by code_simp
  have e3: "getPartitions (Inr [''sdb1  notanumber'']) =
       ([], [PartitionSizeInteger (Failure ''notanumber'')])"
    by code_simp
  have e4: "getPartitions (Inr [''sda1'' @ [CHR 0xC2, CHR 0xA0] @ ''x 1048576'']) =
       ([], [PartitionSizeForm (''sda1'' @ [CHR 0xC2, CHR 0xA0] @ ''x 1048576'')])"
    by code_simp
  have e5: "getPartitions (Inr [''sdc1 99999999999999999999'']) =
       ([], [PartitionSizeInteger (Failure ''99999999999999999999'')])"
    by code_simp
  from general [of results] exact e1 e2 e3 e4 e5 show ?thesis
    by blast
qed

theorem getPartitions_sizes_in_gigabytes_witness:
  "\<bar>2097152 :: int\<bar> < 2 ^ 53
   \<and> float64_of_int 2097152 / 1048576 = 2
   \<and> getPartitions (Inr [''sda1        1048576'']) = ([1], [])"
  using getPartitions_sizes_in_gigabytes [of "[]" 2097152] by simp

section \<open>The hardware capability mapper\<close>

subsection \<open>Facts about the first occurrence of a text\<close>

lemma strings_Index_length:
  "0 \<le> strings_Index s sub \<Longrightarrow> length sub \<le> length s"
  using strings_Index_occurs [of s sub] by auto

lemma strings_Index_le_length: "strings_Index s sub \<le> int (length s)"
  by (induction s) (auto simp: Let_def)

lemma strings_HasPrefix_append:
  "length sub \<le> length s \<Longrightarrow> strings_HasPrefix (s @ t) sub = strings_HasPrefix s sub"
  by (simp add: strings_HasPrefix_def)

lemma strings_Index_append:
  "0 \<le> strings_Index s sub \<Longrightarrow> strings_Index (s @ t) sub = strings_Index s sub"
proof (induction s)
  case Nil
  then show ?case
    by (cases t) (simp_all add: strings_HasPrefix_def split: if_splits)
next
  case (Cons c cs)
  have len: "length sub \<le> length (c # cs)"
    by (rule strings_Index_length [OF Cons.prems])
  have p: "strings_HasPrefix ((c # cs) @ t) sub = strings_HasPrefix (c # cs) sub"
    by (rule strings_HasPrefix_append [OF len])
  show ?case
  proof (cases "strings_HasPrefix (c # cs) sub")
    case True
    with p show ?thesis by simp
  next
    case False
    with Cons.prems have "0 \<le> strings_Index cs sub"
      by (simp add: Let_def split: if_splits)
    then have "strings_Index (cs @ t) sub = strings_Index cs sub"
      by (rule Cons.IH)
    with False p show ?thesis by simp
  qed
qed

lemma strings_Index_found: "0 \<le> strings_Index (pre @ sub @ post) sub"
proof (induction pre)
  case Nil
  have "strings_HasPrefix (sub @ post) sub"
    by (simp add: strings_HasPrefix_def)
  then show ?case
    by (cases "sub @ post") simp_all
next
  case (Cons c pre)
  then show ?case by (simp add: Let_def)
qed

lemma strings_Index_contains:
  "0 \<le> strings_Index s sub \<longleftrightarrow> (\<exists>pre post. s = pre @ sub @ post)"
  using strings_Index_occurs [of s sub] strings_Index_found [of _ sub] by auto

lemma newSupported_suffix:
  "newSupported (pre @ legacyBytes @ rest) = newSupported (pre @ legacyBytes)"
proof -
  let ?i = "strings_Index (pre @ legacyBytes) legacyBytes"
  have found: "0 \<le> ?i"
    using strings_Index_found [of pre legacyBytes "[]"] by simp
  have same: "strings_Index ((pre @ legacyBytes) @ rest) legacyBytes = ?i"
    by (rule strings_Index_append [OF found])
  have "nat ?i \<le> length (pre @ legacyBytes)"
    using strings_Index_le_length [of "pre @ legacyBytes" legacyBytes] by simp
  then have "take (nat ?i) ((pre @ legacyBytes) @ rest) = take (nat ?i) (pre @ legacyBytes)"
    by simp
  with found same show ?thesis
    by (simp add: newSupported_def bytes_Index_def Let_def)
qed

subsection \<open>Lines of a truncated buffer\<close>

lemma scanLines_cur_prefix:
  "cur \<noteq> [] \<Longrightarrow> \<exists>l \<in> set (scanLines cur r). prefix cur l"
proof (induction r arbitrary: cur)
  case Nil
  then show ?case by simp
next
  case (Cons c cs)
  show ?case
  proof (cases "c = CHR 0x0A")
    case True
    then show ?thesis by simp
  next
    case False
    from Cons.IH [of "cur @ [c]"] obtain l where
      "l \<in> set (scanLines (cur @ [c]) cs)" "prefix (cur @ [c]) l"
      by auto
    with False show ?thesis
      by (auto dest: append_prefixD)
  qed
qed

lemma scanLines_append_prefix:
  "l \<in> set (scanLines cur r) \<Longrightarrow> \<exists>l' \<in> set (scanLines cur (r @ t)). prefix l l'"
proof (induction r arbitrary: cur)
  case Nil
  then have "cur \<noteq> []" "l = cur"
    by (auto split: if_splits)
  then show ?case
    using scanLines_cur_prefix [of cur t] by simp
next
  case (Cons c cs)
  show ?case
  proof (cases "c = CHR 0x0A")
    case True
    with Cons.prems have "l = cur \<or> l \<in> set (scanLines [] cs)" by simp
    then show ?thesis
    proof
      assume "l = cur"
      with True show ?thesis by auto
    next
      assume "l \<in> set (scanLines [] cs)"
      from Cons.IH [OF this] True show ?thesis by auto
    qed
  next
    case False
    with Cons.prems have "l \<in> set (scanLines (cur @ [c]) cs)" by simp
    from Cons.IH [OF this] False show ?thesis by simp
  qed
qed

lemma linesOf_take_prefix:
  assumes "l \<in> set (linesOf (take n r))"
  shows "\<exists>l' \<in> set (linesOf r). prefix l l'"
proof -
  from assms have "l \<in> set (scanLines [] (take n r))"
    by (simp add: linesOf_def)
  from scanLines_append_prefix [OF this, of "drop n r"] show ?thesis
    by (simp add: linesOf_def)
qed

subsection \<open>The pattern of the supported level\<close>

lemma hwCapPattern_matches:
  "hwCapPattern line \<noteq> None \<longleftrightarrow>
     (\<exists>i < length line. line ! i = CHR '' ''
        \<and> 0 \<le> strings_Index (drop (Suc i) line) ''supported, searched'')"
proof -
  let ?P = "\<lambda>i. line ! i = CHR '' ''
      \<and> 0 \<le> strings_Index (drop (Suc i) line) ''supported, searched''"
  have "hwCapPattern line \<noteq> None \<longleftrightarrow> filter ?P (rev [0..<length line]) \<noteq> []"
    by (simp add: hwCapPattern_def split: list.splits)
  also have "\<dots> \<longleftrightarrow> (\<exists>i \<in> set (rev [0..<length line]). ?P i)"
    by (simp only: filter_empty_conv) blast
  finally show ?thesis by auto
qed

lemma hwCapPattern_prefix:
  assumes "hwCapPattern l \<noteq> None" and "prefix l l'"
  shows "hwCapPattern l' \<noteq> None"
proof -
  from assms(2) obtain t where l': "l' = l @ t"
    by (auto simp: prefix_def)
  from assms(1) obtain i where i: "i < length l" "l ! i = CHR '' ''"
    "0 \<le> strings_Index (drop (Suc i) l) ''supported, searched''"
    unfolding hwCapPattern_matches by blast
  have "0 \<le> strings_Index (drop (Suc i) l @ t) ''supported, searched''"
    using strings_Index_append [OF i(3), of t] i(3) by simp
  with i l' have "i < length l'" "l' ! i = CHR '' ''"
    "0 \<le> strings_Index (drop (Suc i) l') ''supported, searched''"
    by (simp_all add: nth_append)
  then show ?thesis
    unfolding hwCapPattern_matches by blast
qed

lemma filterFirst_NotFound:
  assumes "\<forall>line \<in> set (linesOf r). pat line = None"
  shows "filterFirst r pat anchorToStart = Inl NotFound"
proof -
  have "List.map_filter (lineMatch pat anchorToStart) (linesOf r) = []"
    using assms by (induction "linesOf r") (auto simp: map_filter_def lineMatch_def)
  then show ?thesis
    by (simp add: filterFirst_def)
qed

lemma newSupported_take: "\<exists>n. newSupported r = take n r"
proof (cases "0 \<le> bytes_Index r legacyBytes")
  case True
  then show ?thesis
    by (auto simp: newSupported_def Let_def)
next
  case False
  then have "newSupported r = take (length r) r"
    by (simp add: newSupported_def Let_def)
  then show ?thesis ..
qed

lemma no_supported_line:
  assumes "\<forall>line \<in> set (linesOf r). hwCapPattern line = None"
  shows "filterFirst (newSupported r) hwCapPattern False = Inl NotFound"
proof (rule filterFirst_NotFound, rule ballI)
  fix l
  assume l: "l \<in> set (linesOf (newSupported r))"
  obtain n where "newSupported r = take n r"
    using newSupported_take by blast
  with l linesOf_take_prefix obtain l' where l': "l' \<in> set (linesOf r)" "prefix l l'"
    by metis
  show "hwCapPattern l = None"
  proof (rule ccontr)
    assume "hwCapPattern l \<noteq> None"
    then have "hwCapPattern l' \<noteq> None"
      using l'(2) by (rule hwCapPattern_prefix)
    with assms l'(1) show False by simp
  qed
qed

subsection \<open>Truncation at the legacy section\<close>

lemma getHwCap_searches_newSupported:
  "0 \<le> bytes_Index out hwCapBytes \<Longrightarrow>
   getHwCap (Some (Inr out)) =
     (case filterFirst (newSupported out) hwCapPattern False of
        Inl err \<Rightarrow> (''-'', [NoSupportedHwcap err])
      | Inr resultSupported \<Rightarrow> (resultSupported, []))"
  by (simp add: getHwCap_def Let_def)

text \<open>
  Claim C2, as stated, says that the buffer is truncated at the legacy marker only if that
  marker occurs after the glibc-hwcaps marker. In the output below the legacy marker is at
  index 0 and the glibc-hwcaps marker at index 28, after it; the buffer is truncated all
  the same, to the empty buffer, and the supported line of the output is not found.
\<close>

theorem getHwCap_legacy_first_counterexample:
  "bytes_Index (''Legacy HWCAP subdirectories'' @ [CHR 0x0A]
       @ ''Subdirectories of glibc-hwcaps'' @ [CHR 0x0A]
       @ ''  x86-64-v2 (supported, searched)'' @ [CHR 0x0A]) legacyBytes = 0
   \<and> bytes_Index (''Legacy HWCAP subdirectories'' @ [CHR 0x0A]
       @ ''Subdirectories of glibc-hwcaps'' @ [CHR 0x0A]
       @ ''  x86-64-v2 (supported, searched)'' @ [CHR 0x0A]) hwCapBytes = 28
   \<and> newSupported (''Legacy HWCAP subdirectories'' @ [CHR 0x0A]
       @ ''Subdirectories of glibc-hwcaps'' @ [CHR 0x0A]
       @ ''  x86-64-v2 (supported, searched)'' @ [CHR 0x0A]) = []
   \<and> getHwCap (Some (Inr (''Legacy HWCAP subdirectories'' @ [CHR 0x0A]
       @ ''Subdirectories of glibc-hwcaps'' @ [CHR 0x0A]
       @ ''  x86-64-v2 (supported, searched)'' @ [CHR 0x0A]))) =
       (''-'', [NoSupportedHwcap NotFound])
   \<and> filterFirst (''Legacy HWCAP subdirectories'' @ [CHR 0x0A]
       @ ''Subdirectories of glibc-hwcaps'' @ [CHR 0x0A]
       @ ''  x86-64-v2 (supported, searched)'' @ [CHR 0x0A]) hwCapPattern False =
       Inr ''  x86-64-v2''"
  by code_simp

text \<open>
  Claim C2, amended. In \<open>getHwCap\<close>, when the marker \<open>Subdirectories of glibc-hwcaps\<close> is
  present, the buffer is truncated at the first occurrence of the marker
  \<open>Legacy HWCAP subdirectories\<close> whenever that marker occurs in the output, before or after
  the glibc-hwcaps marker, and the supported-level line is searched in the truncated
  buffer only: two outputs that contain the glibc-hwcaps marker and agree up to and including
  a legacy marker give the same result, whatever follows that marker.
\<close>

theorem getHwCap_truncates_at_first_legacy_marker:
  "(0 \<le> bytes_Index out hwCapBytes \<and> 0 \<le> bytes_Index out legacyBytes \<longrightarrow>
      getHwCap (Some (Inr out)) =
        (case filterFirst (take (nat (bytes_Index out legacyBytes)) out) hwCapPattern False of
           Inl err \<Rightarrow> (''-'', [NoSupportedHwcap err])
         | Inr resultSupported \<Rightarrow> (resultSupported, [])))
   \<and> (0 \<le> bytes_Index (pre @ legacyBytes @ rest) hwCapBytes
        \<and> 0 \<le> bytes_Index (pre @ legacyBytes @ rest') hwCapBytes \<longrightarrow>
      getHwCap (Some (Inr (pre @ legacyBytes @ rest))) =
        getHwCap (Some (Inr (pre @ legacyBytes @ rest'))))"
proof (intro conjI impI)
  assume "0 \<le> bytes_Index out hwCapBytes \<and> 0 \<le> bytes_Index out legacyBytes"
  then show "getHwCap (Some (Inr out)) =
        (case filterFirst (take (nat (bytes_Index out legacyBytes)) out) hwCapPattern False of
           Inl err \<Rightarrow> (''-'', [NoSupportedHwcap err])
         | Inr resultSupported \<Rightarrow> (resultSupported, []))"
    by (simp add: getHwCap_searches_newSupported newSupported_def Let_def)
next
  assume "0 \<le> bytes_Index (pre @ legacyBytes @ rest) hwCapBytes
        \<and> 0 \<le> bytes_Index (pre @ legacyBytes @ rest') hwCapBytes"
  moreover have "newSupported (pre @ legacyBytes @ rest) = newSupported (pre @ legacyBytes @ rest')"
    by (simp add: newSupported_suffix [of pre rest] newSupported_suffix [of pre rest'])
  ultimately show "getHwCap (Some (Inr (pre @ legacyBytes @ rest))) =
        getHwCap (Some (Inr (pre @ legacyBytes @ rest')))"
    by (simp add: getHwCap_searches_newSupported)
qed

theorem getHwCap_truncates_at_first_legacy_marker_witness:
  "0 \<le> bytes_Index ((''Subdirectories of glibc-hwcaps'' @ [CHR 0x0A] @ ''  x86-64-v4'' @ [CHR 0x0A])
       @ legacyBytes @ ([CHR 0x0A] @ ''  x86_64 (supported, searched)'')) hwCapBytes
   \<and> bytes_Index ((''Subdirectories of glibc-hwcaps'' @ [CHR 0x0A] @ ''  x86-64-v4'' @ [CHR 0x0A])
       @ legacyBytes @ ([CHR 0x0A] @ ''  x86_64 (supported, searched)'')) legacyBytes = 43
   \<and> 0 \<le> bytes_Index ((''Subdirectories of glibc-hwcaps'' @ [CHR 0x0A] @ ''  x86-64-v4'' @ [CHR 0x0A])
       @ legacyBytes @ []) hwCapBytes
   \<and> getHwCap (Some (Inr ((''Subdirectories of glibc-hwcaps'' @ [CHR 0x0A] @ ''  x86-64-v4''
         @ [CHR 0x0A]) @ legacyBytes @ ([CHR 0x0A] @ ''  x86_64 (supported, searched)'')))) =
       (''-'', [NoSupportedHwcap NotFound])
   \<and> getHwCap (Some (Inr ((''Subdirectories of glibc-hwcaps'' @ [CHR 0x0A] @ ''  x86-64-v4''
         @ [CHR 0x0A]) @ legacyBytes @ ([CHR 0x0A] @ ''  x86_64 (supported, searched)'')))) =
       getHwCap (Some (Inr ((''Subdirectories of glibc-hwcaps'' @ [CHR 0x0A] @ ''  x86-64-v4''
         @ [CHR 0x0A]) @ legacyBytes @ [])))"
proof -
  let ?pre = "''Subdirectories of glibc-hwcaps'' @ [CHR 0x0A] @ ''  x86-64-v4'' @ [CHR 0x0A]"
  let ?rest = "[CHR 0x0A] @ ''  x86_64 (supported, searched)''"
  let ?out = "?pre @ legacyBytes @ ?rest"
  have h1: "0 \<le> bytes_Index ?out hwCapBytes"
    by code_simp
  have h2: "bytes_Index ?out legacyBytes = 43"
    by code_simp
  have h3: "0 \<le> bytes_Index (?pre @ legacyBytes @ []) hwCapBytes"
    by code_simp
  have h4: "(case filterFirst (take (nat 43) ?out) hwCapPattern False of
         Inl err \<Rightarrow> (''-'', [NoSupportedHwcap err])
       | Inr resultSupported \<Rightarrow> (resultSupported, [])) = (''-'', [NoSupportedHwcap NotFound])"
    by code_simp
  note inst = getHwCap_truncates_at_first_legacy_marker [of ?out ?pre ?rest "[]"]
  from h2 have "0 \<le> bytes_Index ?out legacyBytes"
    by (simp only:)
  with h1 inst have "getHwCap (Some (Inr ?out)) =
      (case filterFirst (take (nat (bytes_Index ?out legacyBytes)) ?out) hwCapPattern False of
         Inl err \<Rightarrow> (''-'', [NoSupportedHwcap err])
       | Inr resultSupported \<Rightarrow> (resultSupported, []))"
    by blast
  then have r1: "getHwCap (Some (Inr ?out)) = (''-'', [NoSupportedHwcap NotFound])"
    unfolding h2 using h4 by (rule trans)
  from h1 h3 inst have r2: "getHwCap (Some (Inr ?out)) =
      getHwCap (Some (Inr (?pre @ legacyBytes @ [])))"
    by blast
  from h1 h2 h3 r1 r2 show ?thesis
    by blast
qed

subsection \<open>Empty string and the sentinel\<close>

text \<open>
  Claim C7. \<open>getHwCap\<close> returns the empty string when no capability command is configured
  and when the output of the command, read without error, does not contain the marker
  \<open>Subdirectories of glibc-hwcaps\<close>. It returns \<open>-\<close> when the output contains the marker
  and none of its lines matches the pattern of the supported level. The two results differ.
\<close>

theorem getHwCap_empty_or_sentinel:
  "getHwCap None = ([], [])
   \<and> ((\<nexists>pre post. out = pre @ hwCapBytes @ post) \<longrightarrow> getHwCap (Some (Inr out)) = ([], []))
   \<and> ((\<exists>pre post. out = pre @ hwCapBytes @ post)
        \<and> (\<forall>line \<in> set (linesOf out). hwCapPattern line = None) \<longrightarrow>
      getHwCap (Some (Inr out)) = (''-'', [NoSupportedHwcap NotFound])
      \<and> fst (getHwCap (Some (Inr out))) \<noteq> fst (getHwCap None))"
proof (intro conjI impI)
  show "getHwCap None = ([], [])"
    by (simp add: getHwCap_def)
next
  assume "\<nexists>pre post. out = pre @ hwCapBytes @ post"
  then have "bytes_Index out hwCapBytes < 0"
    using strings_Index_contains [of out hwCapBytes] by (simp add: bytes_Index_def)
  then show "getHwCap (Some (Inr out)) = ([], [])"
    by (simp add: getHwCap_def Let_def)
next
  assume a: "(\<exists>pre post. out = pre @ hwCapBytes @ post)
    \<and> (\<forall>line \<in> set (linesOf out). hwCapPattern line = None)"
  then have m: "0 \<le> bytes_Index out hwCapBytes"
    using strings_Index_contains [of out hwCapBytes] by (simp add: bytes_Index_def)
  from a have "filterFirst (newSupported out) hwCapPattern False = Inl NotFound"
    by (simp add: no_supported_line)
  with m show r: "getHwCap (Some (Inr out)) = (''-'', [NoSupportedHwcap NotFound])"
    by (simp add: getHwCap_searches_newSupported)
  show "fst (getHwCap (Some (Inr out))) \<noteq> fst (getHwCap None)"
    unfolding r by (simp add: getHwCap_def)
qed

theorem getHwCap_empty_or_sentinel_witness:
  "(\<nexists>pre post. ''no capability report'' = pre @ hwCapBytes @ post)
   \<and> getHwCap (Some (Inr ''no capability report'')) = ([], [])
   \<and> (\<exists>pre post. hwCapBytes @ [CHR 0x0A] @ ''  x86-64-v4'' = pre @ hwCapBytes @ post)
   \<and> list_all (\<lambda>line. hwCapPattern line = None)
        (linesOf (hwCapBytes @ [CHR 0x0A] @ ''  x86-64-v4''))
   \<and> getHwCap (Some (Inr (hwCapBytes @ [CHR 0x0A] @ ''  x86-64-v4''))) =
       (''-'', [NoSupportedHwcap NotFound])"
proof -
  let ?out = "hwCapBytes @ [CHR 0x0A] @ ''  x86-64-v4''"
  have "strings_Index ''no capability report'' hwCapBytes < 0"
    by code_simp
  then have h1: "\<nexists>pre post. ''no capability report'' = pre @ hwCapBytes @ post"
    using strings_Index_contains [of "''no capability report''" hwCapBytes] by simp
  have h2: "\<exists>pre post. ?out = pre @ hwCapBytes @ post"
    by (rule exI [of _ "[]"]) simp
  have h3: "list_all (\<lambda>line. hwCapPattern line = None) (linesOf ?out)"
    by code_simp
  then have h4: "\<forall>line \<in> set (linesOf ?out). hwCapPattern line = None"
    by (simp only: list_all_iff)
  from h1 getHwCap_empty_or_sentinel [of "''no capability report''"]
  have r1: "getHwCap (Some (Inr ''no capability report'')) = ([], [])"
    by blast
  from h2 h4 getHwCap_empty_or_sentinel [of ?out]
  have r2: "getHwCap (Some (Inr ?out)) = (''-'', [NoSupportedHwcap NotFound])"
    by blast
  from h1 h2 h3 r1 r2 show ?thesis
    by blast
qed

section \<open>Failures of the helpers\<close>


text \<open>The only values on which \<open>getCPU\<close> panics are a value that is not a pointer to
  an \<open>Lscpu\<close> and the nil pointer; the parser returns neither.\<close>

lemma getCPU_panics_iff:
  "fst (getCPU parsedJSON) = Inl NilPointerDereference \<longleftrightarrow>
     parsedJSON = Inr OtherType \<or> parsedJSON = Inr (LscpuPointer None)"
  by (simp add: getCPU_def split: sum.splits iface.splits option.splits)

lemma parseJSON_pointer:
  "parseJSON decoded \<noteq> Inr OtherType \<and> parseJSON decoded \<noteq> Inr (LscpuPointer None)"
  by (simp add: parseJSON_def split: sum.splits)



end
